theory Spec2Isabelle
  imports Complex_Main
begin

section \<open>The table ledger of the 7 e Mezzo scorekeeper\<close>

text \<open>
  A shallow embedding of the game state and of the event handlers of
  \<^verbatim>\<open>src/components/ActiveGame.tsx\<close> (with the start handler of
  \<^verbatim>\<open>src/components/GameSetup.tsx\<close>). Each handler becomes a function from
  the game state it reads to the game state React holds once its queued updates have been
  applied; a handler that returns before any \<^verbatim>\<open>setGameState\<close> becomes an
  error value.

  Conventions of the model:
  \<^item> JavaScript numbers that hold money are modelled as exact reals: \<^verbatim>\<open>Math.round\<close>
    is \<open>\<lfloor>x + 1/2\<rfloor>\<close>, and binary floating-point rounding error is not modelled.
  \<^item> \<^verbatim>\<open>parseFloat(betAmount)\<close> is a \<open>real option\<close>, \<open>None\<close> being \<^verbatim>\<open>NaN\<close>.
  \<^item> \<^verbatim>\<open>crypto.randomUUID()\<close> for the players is a parameter \<open>uuid\<close> (the i-th
    draw). The \<^verbatim>\<open>id\<close> and \<^verbatim>\<open>timestamp\<close> of a log entry come from the
    environment, are read only by the renderer, and are left out of \<open>GameLog\<close>.
  \<^item> A log message is kept as its template and arguments, not as rendered text.
  \<^item> The form state \<^verbatim>\<open>betAmount\<close> and \<^verbatim>\<open>selectedChallengerId\<close> that
    \<^verbatim>\<open>handleTransaction\<close> reads are arguments of the model.
\<close>

subsection \<open>Data model (\<^verbatim>\<open>src/types.ts\<close>)\<close>

record Player =
  id' :: string
  name :: string
  isDealer :: bool
  roundsPlayed :: nat

datatype LogType = Ante | Win | Loss | Collect | Info

datatype message =
    AnteMsg real
    \<comment> \<open>\<^verbatim>\<open>Tutti pagano la puntata iniziale (ante)\<close>\<close>
  | SbancatoMsg "string option" string
    \<comment> \<open>\<^verbatim>\<open>SBANCATO! challengerName svuota il piatto. Il turno passa a nextDealer.name.\<close>\<close>
  | PlayerWinsMsg "string option"
    \<comment> \<open>\<^verbatim>\<open>challengerName vince la mano contro il banco\<close>\<close>
  | CollectMsg string
    \<comment> \<open>\<^verbatim>\<open>Fine turno! currentDealer.name incassa il piatto rimanente\<close>\<close>
  | DealerWinsMsg string
    \<comment> \<open>\<^verbatim>\<open>challenger.name perde. Paga al piatto\<close>\<close>
  | OrbitMsg nat
    \<comment> \<open>\<^verbatim>\<open>Tutti i giocatori hanno giocato. Inizia il Giro newGameRound per questo mazziere.\<close>\<close>

record GameLog =
  message :: message
  amount :: "real option"
  type' :: LogType

record GameState =
  players :: "Player list"
  pot :: real
  ante :: real
  currentDealerId :: "string option"
  roundActive :: bool
  logs :: "GameLog list"
  gameRound :: nat
  playersPlayedThisRound :: "string list"

text \<open>
  The ways a handler ends without a new game state. The source has no error type: each
  constructor names one early exit.
  \<^item> \<open>InvalidSetup\<close>: \<^verbatim>\<open>handleStart\<close> does not call \<^verbatim>\<open>onStartGame\<close>;
  \<^item> \<open>InvalidAmount\<close>: \<^verbatim>\<open>if (isNaN(amount) || amount <= 0) return\<close>;
  \<^item> \<open>InsufficientPot\<close>: the safety check that sets the error message and returns;
  \<^item> \<open>InvalidChallenger\<close>: \<^verbatim>\<open>if (!challenger) return\<close>;
  \<^item> \<open>NoDealer\<close>: \<^verbatim>\<open>if (!getCurrentDealer()) return\<close> in \<^verbatim>\<open>closeBank\<close>;
  \<^item> \<open>TypeError\<close>: a property read on \<^verbatim>\<open>undefined\<close> in \<^verbatim>\<open>performDealerSwitch\<close>.
\<close>

datatype error =
  InvalidSetup | InvalidAmount | InsufficientPot | InvalidChallenger | NoDealer | TypeError

datatype winner = player | dealer

datatype reason = collect | sbancato

subsection \<open>Currency helpers\<close>

definition toCurrency :: "real \<Rightarrow> real" where
  "toCurrency val = of_int \<lfloor>val * 100 + 1 / 2\<rfloor> / 100"

definition isApproximatelyZero :: "real \<Rightarrow> bool" where
  "isApproximatelyZero val \<longleftrightarrow> \<bar>val\<bar> < 1 / 100"

subsection \<open>Array helpers\<close>

text \<open>\<^verbatim>\<open>Array.prototype.findIndex\<close>: the first index whose element satisfies the
  predicate, \<open>-1\<close> when there is none. \<^verbatim>\<open>Array.prototype.find\<close> is \<^const>\<open>find\<close>.\<close>

fun findIndex :: "('a \<Rightarrow> bool) \<Rightarrow> 'a list \<Rightarrow> int" where
  "findIndex P [] = - 1"
| "findIndex P (x # xs) =
     (if P x then 0 else (let r = findIndex P xs in if r = - 1 then - 1 else r + 1))"

subsection \<open>Setup and the initial state\<close>

text \<open>\<^verbatim>\<open>GameSetup.handleStart\<close>: the arguments \<^verbatim>\<open>onStartGame\<close> is called
  with, or \<open>InvalidSetup\<close> when it is not called.\<close>

definition handleStart :: "string list \<Rightarrow> real \<Rightarrow> error + string list \<times> real" where
  "handleStart names ante0 =
     (if length names \<ge> 2 then Inr (names, ante0) else Inl InvalidSetup)"

text \<open>The initial value of \<^verbatim>\<open>useState<GameState>\<close> in \<^verbatim>\<open>ActiveGame\<close>.\<close>

definition initialGameState :: "(nat \<Rightarrow> string) \<Rightarrow> string list \<Rightarrow> real \<Rightarrow> GameState" where
  "initialGameState uuid initialPlayers anteAmount =
     \<lparr> players = map (\<lambda>(i, n). \<lparr> id' = uuid i, name = n, isDealer = (i = 0), roundsPlayed = 0 \<rparr>)
                     (enumerate 0 initialPlayers),
       pot = 0,
       ante = anteAmount,
       currentDealerId = None,
       roundActive = False,
       logs = [],
       gameRound = 1,
       playersPlayedThisRound = [] \<rparr>"

text \<open>The effect \<^verbatim>\<open>Initialize first dealer\<close>; \<^verbatim>\<open>!currentDealerId\<close> holds for
  \<^verbatim>\<open>null\<close> and for the empty string.\<close>

definition initFirstDealer :: "GameState \<Rightarrow> GameState" where
  "initFirstDealer gameState =
     (if (currentDealerId gameState = None \<or> currentDealerId gameState = Some [])
         \<and> length (players gameState) > 0
      then gameState\<lparr> currentDealerId := Some (id' (hd (players gameState))) \<rparr>
      else gameState)"

text \<open>Initialisation as the setup screen and the mounted game perform it together.\<close>

definition initialize :: "(nat \<Rightarrow> string) \<Rightarrow> string list \<Rightarrow> real \<Rightarrow> error + GameState" where
  "initialize uuid names ante0 =
     (case handleStart names ante0 of
        Inl e \<Rightarrow> Inl e
      | Inr (ns, a) \<Rightarrow> Inr (initFirstDealer (initialGameState uuid ns a)))"

subsection \<open>The handlers of \<^verbatim>\<open>ActiveGame\<close>\<close>

definition getCurrentDealer :: "GameState \<Rightarrow> Player option" where
  "getCurrentDealer gameState =
     find (\<lambda>p. Some (id' p) = currentDealerId gameState) (players gameState)"

definition startRound :: "GameState \<Rightarrow> GameState" where
  "startRound gameState =
     (let totalAnte = toCurrency (real (length (players gameState)) * ante gameState)
      in gameState\<lparr> pot := toCurrency (pot gameState + totalAnte),
                     roundActive := True,
                     logs := \<lparr> message = AnteMsg (ante gameState),
                               amount = Some totalAnte,
                               type' = Ante \<rparr> # logs gameState \<rparr>)"

text \<open>\<^verbatim>\<open>performDealerSwitch\<close>. With no players \<^verbatim>\<open>nextDealer\<close> is undefined and
  reading its name or id throws; with reason \<open>collect\<close> and no current dealer in the
  list \<^verbatim>\<open>currentDealer.name\<close> throws. The new log entries are put in front of the
  old ones, the \<open>SBANCATO\<close> entry before the hand result.\<close>

definition performDealerSwitch ::
  "reason \<Rightarrow> real \<Rightarrow> string option \<Rightarrow> GameState \<Rightarrow> error + GameState" where
  "performDealerSwitch reason finalPot challengerName gameState =
     (let currentIdx = findIndex (\<lambda>p. Some (id' p) = currentDealerId gameState) (players gameState);
          nextIdx = (currentIdx + 1) mod int (length (players gameState))
      in if players gameState = [] then Inl TypeError
         else if reason = collect \<and> currentIdx = - 1 then Inl TypeError
         else
           (let nextDealer = players gameState ! nat nextIdx;
                currentDealer = players gameState ! nat currentIdx;
                newLogs =
                  (if reason = sbancato
                   then [\<lparr> message = SbancatoMsg challengerName (name nextDealer),
                            amount = Some (- finalPot), type' = Loss \<rparr>,
                         \<lparr> message = PlayerWinsMsg challengerName,
                            amount = Some (- finalPot), type' = Loss \<rparr>]
                   else [\<lparr> message = CollectMsg (name currentDealer),
                            amount = Some finalPot, type' = Collect \<rparr>])
            in Inr (gameState\<lparr> pot := 0,
                               roundActive := False,
                               currentDealerId := Some (id' nextDealer),
                               gameRound := 1,
                               playersPlayedThisRound := [],
                               players := map (\<lambda>p. p\<lparr> isDealer := (id' p = id' nextDealer) \<rparr>)
                                              (players gameState),
                               logs := newLogs @ logs gameState \<rparr>)))"

text \<open>\<^verbatim>\<open>updateRoundProgress\<close>, the orbit bookkeeping.\<close>

definition updateRoundProgress :: "GameState \<Rightarrow> string \<Rightarrow> GameState" where
  "updateRoundProgress state currentPlayerId =
     (let updatedPlayed =
            (if currentPlayerId \<in> set (playersPlayedThisRound state)
             then playersPlayedThisRound state
             else playersPlayedThisRound state @ [currentPlayerId]);
          numberOfChallengers = int (length (players state)) - 1
      in if int (length updatedPlayed) \<ge> numberOfChallengers
         then state\<lparr> gameRound := gameRound state + 1,
                      playersPlayedThisRound := [],
                      logs := \<lparr> message = OrbitMsg (gameRound state + 1),
                                amount = None, type' = Info \<rparr> # logs state \<rparr>
         else state\<lparr> gameRound := gameRound state,
                      playersPlayedThisRound := updatedPlayed,
                      logs := logs state \<rparr>)"

text \<open>\<^verbatim>\<open>handleTransaction\<close>: the checks in the order of the source, then the three
  outcomes (bank broken, normal player win, dealer win).\<close>

definition handleTransaction ::
  "winner \<Rightarrow> real option \<Rightarrow> string \<Rightarrow> GameState \<Rightarrow> error + GameState" where
  "handleTransaction w betAmount selectedChallengerId gameState =
     (case betAmount of
        None \<Rightarrow> Inl InvalidAmount
      | Some amt \<Rightarrow>
          if amt \<le> 0 then Inl InvalidAmount
          else if w = player \<and> amt - pot gameState > 1 / 100 then Inl InsufficientPot
          else
            (case find (\<lambda>p. id' p = selectedChallengerId) (players gameState) of
               None \<Rightarrow> Inl InvalidChallenger
             | Some challenger \<Rightarrow>
                 if w = player then
                   (let remainingPot = toCurrency (pot gameState - amt)
                    in if isApproximatelyZero remainingPot
                       then performDealerSwitch sbancato amt (Some (name challenger)) gameState
                       else Inr (updateRoundProgress
                                   (gameState\<lparr> pot := remainingPot,
                                                logs := \<lparr> message = PlayerWinsMsg (Some (name challenger)),
                                                          amount = Some (- amt),
                                                          type' = Loss \<rparr> # logs gameState \<rparr>)
                                   (id' challenger)))
                 else
                   (let updatedPot = toCurrency (pot gameState + amt)
                    in Inr (updateRoundProgress
                              (gameState\<lparr> pot := updatedPot,
                                           logs := \<lparr> message = DealerWinsMsg (name challenger),
                                                     amount = Some amt,
                                                     type' = Win \<rparr> # logs gameState \<rparr>)
                              (id' challenger)))))"

definition closeBank :: "GameState \<Rightarrow> error + GameState" where
  "closeBank gameState =
     (case getCurrentDealer gameState of
        None \<Rightarrow> Inl NoDealer
      | Some _ \<Rightarrow> performDealerSwitch collect (pot gameState) None gameState)"

subsection \<open>Sequences of operations\<close>

text \<open>The operations a scorekeeper can trigger, and the game state React holds after the
  handler has run: the prior state when the handler ended early.\<close>

datatype op = StartRound | RecordHand winner "real option" string | CloseBank

definition after :: "GameState \<Rightarrow> error + GameState \<Rightarrow> GameState" where
  "after gameState r = (case r of Inl _ \<Rightarrow> gameState | Inr s \<Rightarrow> s)"

fun step :: "GameState \<Rightarrow> op \<Rightarrow> GameState" where
  "step s StartRound = startRound s"
| "step s (RecordHand w a c) = after s (handleTransaction w a c s)"
| "step s CloseBank = after s (closeBank s)"

definition run :: "GameState \<Rightarrow> op list \<Rightarrow> GameState" where
  "run s ops = foldl step s ops"

text \<open>Hands given as (winner, parsed amount, selected challenger), recorded one after the
  other.\<close>

fun recordHands :: "GameState \<Rightarrow> (winner \<times> real option \<times> string) list \<Rightarrow> GameState" where
  "recordHands s [] = s"
| "recordHands s ((w, b, c) # hs) = recordHands (step s (RecordHand w b c)) hs"

subsection \<open>Predicates used to state the properties\<close>

text \<open>The operation takes the path on which \<^verbatim>\<open>performDealerSwitch\<close> is called, if
  its checks pass: closing the bank, or a player win whose rounded remainder is
  approximately zero.\<close>

fun mayRotate :: "GameState \<Rightarrow> op \<Rightarrow> bool" where
  "mayRotate s StartRound = False"
| "mayRotate s (RecordHand w b c) =
     (w = player \<and> (case b of None \<Rightarrow> False
                              | Some a \<Rightarrow> isApproximatelyZero (toCurrency (pot s - a))))"
| "mayRotate s CloseBank = True"

text \<open>Every hand of the list is accepted and does not break the bank.\<close>

fun plainHands :: "GameState \<Rightarrow> (winner \<times> real option \<times> string) list \<Rightarrow> bool" where
  "plainHands s [] = True"
| "plainHands s ((w, b, c) # hs) =
     (case handleTransaction w b c s of
        Inl _ \<Rightarrow> False
      | Inr s' \<Rightarrow> \<not> mayRotate s (RecordHand w b c) \<and> plainHands s' hs)"

text \<open>No hand of the sequence names the dealer of the moment as challenger.\<close>

fun nonDealerHands :: "GameState \<Rightarrow> op list \<Rightarrow> bool" where
  "nonDealerHands s [] = True"
| "nonDealerHands s (x # xs) =
     ((case x of RecordHand w b c \<Rightarrow> Some c \<noteq> currentDealerId s | _ \<Rightarrow> True)
      \<and> nonDealerHands (step s x) xs)"

text \<open>The shape of the list of players who have played in the current orbit.\<close>

definition playedInv :: "GameState \<Rightarrow> bool" where
  "playedInv s \<longleftrightarrow>
     distinct (playersPlayedThisRound s)
     \<and> set (playersPlayedThisRound s) \<subseteq> id' ` set (players s)
     \<and> (playersPlayedThisRound s = []
        \<or> int (length (playersPlayedThisRound s)) < int (length (players s)) - 1)"

subsection \<open>A sample table\<close>

text \<open>Three players A, B and C with ids a, b and c and an ante of 0.20: the table just
  after mounting, and the same table after the antes and one hand that B lost for 0.20.\<close>

definition exampleUuid :: "nat \<Rightarrow> string" where
  "exampleUuid i = (if i = 0 then ''a'' else if i = 1 then ''b'' else ''c'')"

definition exampleTable :: GameState where
  "exampleTable = initFirstDealer (initialGameState exampleUuid [''A'', ''B'', ''C''] (1 / 5))"

definition exampleRound :: GameState where
  "exampleRound = run exampleTable [StartRound, RecordHand dealer (Some (1 / 5)) ''b'']"

section \<open>Basic facts\<close>

subsection \<open>Rounding to cents\<close>

text \<open>\<open>toCurrency\<close> moves a value by at most half a cent, is monotone, fixes whole cents,
  and its result is approximately zero exactly when it is zero, that is when the argument
  lies in \<open>[-0.005, 0.005)\<close>.\<close>

lemma toCurrency_upper: "toCurrency x \<le> x + 1 / 200"
proof -
  have "of_int \<lfloor>x * 100 + 1 / 2\<rfloor> \<le> x * 100 + 1 / 2" by (rule of_int_floor_le)
  then show ?thesis by (simp add: toCurrency_def field_simps)
qed

lemma toCurrency_lower: "x - 1 / 200 < toCurrency x"
proof -
  have "x * 100 + 1 / 2 < of_int \<lfloor>x * 100 + 1 / 2\<rfloor> + 1" by linarith
  then show ?thesis by (simp add: toCurrency_def field_simps)
qed

lemma toCurrency_mono: "x \<le> y \<Longrightarrow> toCurrency x \<le> toCurrency y"
  unfolding toCurrency_def
  by (intro divide_right_mono of_int_le_iff[THEN iffD2] floor_mono) simp_all

lemma toCurrency_cents: "toCurrency (of_int k / 100) = of_int k / 100"
proof -
  have "\<lfloor>(of_int k :: real) + 1 / 2\<rfloor> = k" by linarith
  then show ?thesis by (simp add: toCurrency_def)
qed

lemma toCurrency_zero_iff: "toCurrency x = 0 \<longleftrightarrow> - (1 / 200) \<le> x \<and> x < 1 / 200"
proof -
  have "toCurrency x = 0 \<longleftrightarrow> \<lfloor>x * 100 + 1 / 2\<rfloor> = 0" by (simp add: toCurrency_def)
  also have "\<dots> \<longleftrightarrow> 0 \<le> x * 100 + 1 / 2 \<and> x * 100 + 1 / 2 < 1" by (simp add: floor_eq_iff)
  also have "\<dots> \<longleftrightarrow> - (1 / 200) \<le> x \<and> x < 1 / 200" by auto
  finally show ?thesis .
qed

lemma isApproximatelyZero_toCurrency:
  "isApproximatelyZero (toCurrency x) \<longleftrightarrow> toCurrency x = 0"
proof
  assume h: "isApproximatelyZero (toCurrency x)"
  define k where "k = \<lfloor>x * 100 + 1 / 2\<rfloor>"
  have tc: "toCurrency x = of_int k / 100" by (simp add: toCurrency_def k_def)
  from h have "\<bar>(of_int k :: real)\<bar> < 1" by (simp add: isApproximatelyZero_def tc)
  then have "k = 0" by linarith
  then show "toCurrency x = 0" by (simp add: tc)
next
  assume "toCurrency x = 0" then show "isApproximatelyZero (toCurrency x)"
    by (simp add: isApproximatelyZero_def)
qed


subsection \<open>Searching the player list\<close>

lemma findIndex_bounds: "- 1 \<le> findIndex P xs \<and> findIndex P xs < int (length xs)"
  by (induction xs) (auto simp: Let_def)

lemma findIndex_none_iff: "findIndex P xs = - 1 \<longleftrightarrow> (\<forall>x\<in>set xs. \<not> P x)"
proof (induction xs)
  case Nil then show ?case by simp
next
  case (Cons x xs)
  have "- 1 \<le> findIndex P xs" using findIndex_bounds[of P xs] by simp
  with Cons show ?case by (auto simp: Let_def)
qed

lemma findIndex_nth:
  "distinct (map f xs) \<Longrightarrow> i < length xs \<Longrightarrow> findIndex (\<lambda>p. f p = f (xs ! i)) xs = int i"
proof (induction xs arbitrary: i)
  case Nil then show ?case by simp
next
  case (Cons x xs)
  show ?case
  proof (cases i)
    case 0 then show ?thesis by simp
  next
    case (Suc j)
    with Cons.prems have j: "j < length xs" and d: "distinct (map f xs)"
      and nx: "f x \<noteq> f (xs ! j)" by auto
    from Cons.IH[OF d j] have "findIndex (\<lambda>p. f p = f (xs ! j)) xs = int j" .
    with Suc nx show ?thesis by (simp add: Let_def)
  qed
qed

lemma find_nth:
  "distinct (map f xs) \<Longrightarrow> i < length xs \<Longrightarrow> find (\<lambda>p. f p = f (xs ! i)) xs = Some (xs ! i)"
proof (induction xs arbitrary: i)
  case Nil then show ?case by simp
next
  case (Cons x xs)
  show ?case
  proof (cases i)
    case 0 then show ?thesis by simp
  next
    case (Suc j)
    with Cons.prems have j: "j < length xs" and d: "distinct (map f xs)"
      and nx: "f x \<noteq> f (xs ! j)" by auto
    from Cons.IH[OF d j] Suc nx show ?thesis by simp
  qed
qed

lemma find_id: "find (\<lambda>p. id' p = c) ps = Some ch \<Longrightarrow> id' ch = c \<and> ch \<in> set ps"
  by (induction ps) (auto split: if_splits)

lemma id_nth_eq:
  "distinct (map id' ps) \<Longrightarrow> i < length ps \<Longrightarrow> j < length ps \<Longrightarrow>
     (id' (ps ! j) = id' (ps ! i)) = (j = i)"
  using nth_eq_iff_index_eq[of "map id' ps" j i] by simp

lemma nextIdx_nat: "0 < n \<Longrightarrow> nat ((int i + 1) mod int n) = (i + 1) mod n"
proof -
  have "int i + 1 = int (i + 1)" by simp
  then have "(int i + 1) mod int n = int ((i + 1) mod n)" by (simp only: zmod_int)
  then show ?thesis by simp
qed

subsection \<open>What the handlers return\<close>

text \<open>With distinct ids and the dealer at index \<open>i\<close>, the dealer switch succeeds and hands
  the bank to the player at index \<open>(i + 1) mod n\<close>.\<close>

lemma performDealerSwitch_at:
  assumes d: "distinct (map id' (players st))"
      and i: "i < length (players st)"
      and c: "currentDealerId st = Some (id' (players st ! i))"
  shows "performDealerSwitch r finalPot challengerName st =
     Inr (st\<lparr> pot := 0, roundActive := False,
              currentDealerId := Some (id' (players st ! ((i + 1) mod length (players st)))),
              gameRound := 1, playersPlayedThisRound := [],
              players := map (\<lambda>p. p\<lparr> isDealer :=
                   (id' p = id' (players st ! ((i + 1) mod length (players st)))) \<rparr>) (players st),
              logs := (if r = sbancato
                 then [\<lparr> message = SbancatoMsg challengerName
                                      (name (players st ! ((i + 1) mod length (players st)))),
                          amount = Some (- finalPot), type' = Loss \<rparr>,
                       \<lparr> message = PlayerWinsMsg challengerName,
                          amount = Some (- finalPot), type' = Loss \<rparr>]
                 else [\<lparr> message = CollectMsg (name (players st ! i)),
                          amount = Some finalPot, type' = Collect \<rparr>]) @ logs st \<rparr>)"
proof -
  have ne: "players st \<noteq> []" using i by auto
  have n0: "0 < length (players st)" using i by auto
  have fi: "findIndex (\<lambda>p. Some (id' p) = currentDealerId st) (players st) = int i"
    using findIndex_nth[OF d i] c by simp
  show ?thesis
    unfolding performDealerSwitch_def Let_def fi
    using ne by (simp add: nextIdx_nat[OF n0])
qed

lemma performDealerSwitch_frame:
  assumes "performDealerSwitch r f cn s = Inr s'"
  shows "ante s' = ante s \<and> map id' (players s') = map id' (players s)
       \<and> map name (players s') = map name (players s)
       \<and> map roundsPlayed (players s') = map roundsPlayed (players s)
       \<and> playersPlayedThisRound s' = [] \<and> pot s' = 0"
  using assms by (auto simp: performDealerSwitch_def Let_def split: if_splits)

lemma handleTransaction_bust:
  assumes "0 < a" and "find (\<lambda>p. id' p = c) (players st) = Some ch"
      and "isApproximatelyZero (toCurrency (pot st - a))"
  shows "handleTransaction player (Some a) c st = performDealerSwitch sbancato a (Some (name ch)) st"
proof -
  from assms(3) have "toCurrency (pot st - a) = 0" by (simp add: isApproximatelyZero_toCurrency)
  then have "- (1 / 200) \<le> pot st - a" by (simp add: toCurrency_zero_iff)
  then have "\<not> a - pot st > 1 / 100" by simp
  with assms show ?thesis by (simp add: handleTransaction_def)
qed

lemma handleTransaction_player_plain:
  assumes "0 < a" and "a - pot st \<le> 1 / 100"
      and "find (\<lambda>p. id' p = c) (players st) = Some ch"
      and "\<not> isApproximatelyZero (toCurrency (pot st - a))"
  shows "handleTransaction player (Some a) c st =
     Inr (updateRoundProgress
            (st\<lparr> pot := toCurrency (pot st - a),
                 logs := \<lparr> message = PlayerWinsMsg (Some (name ch)), amount = Some (- a),
                           type' = Loss \<rparr> # logs st \<rparr>) (id' ch))"
  using assms by (simp add: handleTransaction_def)

lemma handleTransaction_dealer:
  assumes "0 < a" and "find (\<lambda>p. id' p = c) (players st) = Some ch"
  shows "handleTransaction dealer (Some a) c st =
     Inr (updateRoundProgress
            (st\<lparr> pot := toCurrency (pot st + a),
                 logs := \<lparr> message = DealerWinsMsg (name ch), amount = Some a,
                           type' = Win \<rparr> # logs st \<rparr>) (id' ch))"
  using assms by (simp add: handleTransaction_def)

lemma updateRoundProgress_frame:
  "pot (updateRoundProgress s c) = pot s \<and> players (updateRoundProgress s c) = players s
   \<and> ante (updateRoundProgress s c) = ante s
   \<and> currentDealerId (updateRoundProgress s c) = currentDealerId s
   \<and> roundActive (updateRoundProgress s c) = roundActive s"
  by (simp add: updateRoundProgress_def Let_def)

text \<open>An accepted hand that does not take the dealer-switch path is the orbit bookkeeping
  applied to a state that differs from the old one in pot and log only.\<close>

lemma plain_hand:
  assumes h: "handleTransaction w b c s = Inr s'"
      and nr: "\<not> mayRotate s (RecordHand w b c)"
  shows "\<exists>s'' e. s' = updateRoundProgress s'' c \<and> players s'' = players s
      \<and> playersPlayedThisRound s'' = playersPlayedThisRound s
      \<and> gameRound s'' = gameRound s \<and> currentDealerId s'' = currentDealerId s
      \<and> ante s'' = ante s \<and> roundActive s'' = roundActive s
      \<and> logs s'' = e # logs s \<and> c \<in> id' ` set (players s)"
proof -
  from h obtain a where b: "b = Some a" and a: "0 < a"
    by (auto simp: handleTransaction_def split: option.splits if_splits)
  from h b a obtain ch where ch: "find (\<lambda>p. id' p = c) (players s) = Some ch"
    by (auto simp: handleTransaction_def split: option.splits if_splits)
  from find_id[OF ch] have idc: "id' ch = c" and mem: "ch \<in> set (players s)" by simp_all
  from mem idc have cin: "c \<in> id' ` set (players s)" by auto
  show ?thesis
  proof (cases w)
    case player
    with nr b have nz: "\<not> isApproximatelyZero (toCurrency (pot s - a))" by simp
    from h b a player have le: "a - pot s \<le> 1 / 100"
      by (auto simp: handleTransaction_def split: if_splits)
    from h handleTransaction_player_plain[OF a le ch nz] b player idc cin
    show ?thesis by auto
  next
    case dealer
    from h handleTransaction_dealer[OF a ch] b dealer idc cin
    show ?thesis by auto
  qed
qed

lemma handleTransaction_frame:
  assumes "handleTransaction w b c s = Inr s'"
  shows "ante s' = ante s \<and> map id' (players s') = map id' (players s)
       \<and> map name (players s') = map name (players s)
       \<and> map roundsPlayed (players s') = map roundsPlayed (players s)"
proof (cases "mayRotate s (RecordHand w b c)")
  case False
  from plain_hand[OF assms False] show ?thesis
    by (auto simp: updateRoundProgress_frame)
next
  case True
  then obtain a where b: "b = Some a" and w: "w = player"
    and z: "isApproximatelyZero (toCurrency (pot s - a))"
    by (auto split: option.splits)
  from assms b have a: "0 < a"
    by (auto simp: handleTransaction_def split: if_splits)
  from assms b a obtain ch where ch: "find (\<lambda>p. id' p = c) (players s) = Some ch"
    by (auto simp: handleTransaction_def split: option.splits if_splits)
  from assms handleTransaction_bust[OF a ch z] b w
  have "performDealerSwitch sbancato a (Some (name ch)) s = Inr s'" by simp
  from performDealerSwitch_frame[OF this] show ?thesis by simp
qed

lemma step_frame:
  "ante (step s x) = ante s \<and> map id' (players (step s x)) = map id' (players s)
   \<and> map name (players (step s x)) = map name (players s)
   \<and> map roundsPlayed (players (step s x)) = map roundsPlayed (players s)"
proof (cases x)
  case StartRound
  then show ?thesis by (simp add: startRound_def Let_def)
next
  case (RecordHand w b c)
  show ?thesis
  proof (cases "handleTransaction w b c s")
    case (Inl e) with RecordHand show ?thesis by (simp add: after_def)
  next
    case (Inr s') with RecordHand handleTransaction_frame[OF Inr] show ?thesis
      by (simp add: after_def)
  qed
next
  case CloseBank
  show ?thesis
  proof (cases "closeBank s")
    case (Inl e) with CloseBank show ?thesis by (simp add: after_def)
  next
    case (Inr s')
    then have "performDealerSwitch collect (pot s) None s = Inr s'"
      by (auto simp: closeBank_def split: option.splits)
    from performDealerSwitch_frame[OF this] CloseBank Inr show ?thesis
      by (simp add: after_def)
  qed
qed

lemma step_players_same:
  assumes "\<not> mayRotate s x"
  shows "players (step s x) = players s"
proof (cases x)
  case StartRound
  then show ?thesis by (simp add: startRound_def Let_def)
next
  case (RecordHand w b c)
  show ?thesis
  proof (cases "handleTransaction w b c s")
    case (Inl e) with RecordHand show ?thesis by (simp add: after_def)
  next
    case (Inr s')
    from plain_hand[OF Inr] assms RecordHand Inr show ?thesis
      by (auto simp: after_def updateRoundProgress_frame)
  qed
next
  case CloseBank
  with assms show ?thesis by simp
qed

subsection \<open>The initial state\<close>

lemma initialize_state:
  assumes "initialize uuid names a0 = Inr s0"
  shows "2 \<le> length names \<and> s0 = initFirstDealer (initialGameState uuid names a0)"
  using assms by (auto simp: initialize_def handleStart_def split: if_splits)

lemma initial_fields:
  "length (players (initFirstDealer (initialGameState uuid names a0))) = length names
   \<and> playersPlayedThisRound (initFirstDealer (initialGameState uuid names a0)) = []
   \<and> pot (initFirstDealer (initialGameState uuid names a0)) = 0
   \<and> ante (initFirstDealer (initialGameState uuid names a0)) = a0
   \<and> roundActive (initFirstDealer (initialGameState uuid names a0)) = False
   \<and> logs (initFirstDealer (initialGameState uuid names a0)) = []
   \<and> gameRound (initFirstDealer (initialGameState uuid names a0)) = 1"
  by (simp add: initFirstDealer_def initialGameState_def)

subsection \<open>The list of players who have played\<close>

lemma updateRoundProgress_playedInv:
  assumes "playedInv s" and "c \<in> id' ` set (players s)"
  shows "playedInv (updateRoundProgress s c)"
  using assms unfolding playedInv_def updateRoundProgress_def Let_def
  by (auto split: if_splits)

lemma playedInv_cong:
  "players s'' = players s \<Longrightarrow> playersPlayedThisRound s'' = playersPlayedThisRound s \<Longrightarrow>
   playedInv s \<Longrightarrow> playedInv s''"
  by (simp add: playedInv_def)

lemma step_playedInv:
  assumes "playedInv s"
  shows "playedInv (step s x)"
proof (cases x)
  case StartRound
  with assms show ?thesis by (simp add: startRound_def Let_def playedInv_def)
next
  case (RecordHand w b c)
  show ?thesis
  proof (cases "handleTransaction w b c s")
    case (Inl e) with RecordHand assms show ?thesis by (simp add: after_def)
  next
    case (Inr s')
    show ?thesis
    proof (cases "mayRotate s (RecordHand w b c)")
      case False
      from plain_hand[OF Inr False] obtain s'' where
        "s' = updateRoundProgress s'' c" "players s'' = players s"
        "playersPlayedThisRound s'' = playersPlayedThisRound s" "c \<in> id' ` set (players s)"
        by blast
      with assms have "playedInv s'"
        using updateRoundProgress_playedInv[of s'' c] playedInv_cong[of s'' s] by simp
      with RecordHand Inr show ?thesis by (simp add: after_def)
    next
      case True
      then obtain a where b: "b = Some a" and w: "w = player"
        and z: "isApproximatelyZero (toCurrency (pot s - a))"
        by (auto split: option.splits)
      from Inr b have a: "0 < a"
        by (auto simp: handleTransaction_def split: if_splits)
      from Inr b a obtain ch where ch: "find (\<lambda>p. id' p = c) (players s) = Some ch"
        by (auto simp: handleTransaction_def split: option.splits if_splits)
      from Inr handleTransaction_bust[OF a ch z] b w
      have "performDealerSwitch sbancato a (Some (name ch)) s = Inr s'" by simp
      from performDealerSwitch_frame[OF this] have "playedInv s'" by (simp add: playedInv_def)
      with RecordHand Inr show ?thesis by (simp add: after_def)
    qed
  qed
next
  case CloseBank
  show ?thesis
  proof (cases "closeBank s")
    case (Inl e) with CloseBank assms show ?thesis by (simp add: after_def)
  next
    case (Inr s')
    then have "performDealerSwitch collect (pot s) None s = Inr s'"
      by (auto simp: closeBank_def split: option.splits)
    from performDealerSwitch_frame[OF this] have "playedInv s'" by (simp add: playedInv_def)
    with CloseBank Inr show ?thesis by (simp add: after_def)
  qed
qed

lemma step_dealer_free:
  assumes free: "currentDealerId s \<notin> Some ` set (playersPlayedThisRound s)"
      and nd: "case x of RecordHand w b c \<Rightarrow> Some c \<noteq> currentDealerId s | _ \<Rightarrow> True"
  shows "currentDealerId (step s x) \<notin> Some ` set (playersPlayedThisRound (step s x))"
proof (cases x)
  case StartRound
  with free show ?thesis by (simp add: startRound_def Let_def)
next
  case (RecordHand w b c)
  with nd have cd: "Some c \<noteq> currentDealerId s" by simp
  show ?thesis
  proof (cases "handleTransaction w b c s")
    case (Inl e) with RecordHand free show ?thesis by (simp add: after_def)
  next
    case (Inr s')
    show ?thesis
    proof (cases "mayRotate s (RecordHand w b c)")
      case False
      from plain_hand[OF Inr False] obtain s'' where
        s': "s' = updateRoundProgress s'' c" and
        "playersPlayedThisRound s'' = playersPlayedThisRound s"
        "currentDealerId s'' = currentDealerId s"
        by blast
      with free cd have "currentDealerId s' \<notin> Some ` set (playersPlayedThisRound s')"
        unfolding s' updateRoundProgress_def Let_def by (auto split: if_splits)
      with RecordHand Inr show ?thesis by (simp add: after_def)
    next
      case True
      then obtain a where b: "b = Some a" and w: "w = player"
        and z: "isApproximatelyZero (toCurrency (pot s - a))"
        by (auto split: option.splits)
      from Inr b have a: "0 < a"
        by (auto simp: handleTransaction_def split: if_splits)
      from Inr b a obtain ch where ch: "find (\<lambda>p. id' p = c) (players s) = Some ch"
        by (auto simp: handleTransaction_def split: option.splits if_splits)
      from Inr handleTransaction_bust[OF a ch z] b w
      have "performDealerSwitch sbancato a (Some (name ch)) s = Inr s'" by simp
      from performDealerSwitch_frame[OF this] RecordHand Inr show ?thesis
        by (simp add: after_def)
    qed
  qed
next
  case CloseBank
  show ?thesis
  proof (cases "closeBank s")
    case (Inl e) with CloseBank free show ?thesis by (simp add: after_def)
  next
    case (Inr s')
    then have "performDealerSwitch collect (pot s) None s = Inr s'"
      by (auto simp: closeBank_def split: option.splits)
    from performDealerSwitch_frame[OF this] CloseBank Inr show ?thesis
      by (simp add: after_def)
  qed
qed

lemma run_Cons: "run s (x # xs) = run (step s x) xs"
  by (simp add: run_def)

lemma run_playedInv: "playedInv s \<Longrightarrow> playedInv (run s xs)"
proof (induction xs arbitrary: s)
  case Nil then show ?case by (simp add: run_def)
next
  case (Cons x xs)
  from Cons.IH[OF step_playedInv[OF Cons.prems]] show ?case by (simp add: run_Cons)
qed

lemma run_dealer_free:
  "currentDealerId s \<notin> Some ` set (playersPlayedThisRound s) \<Longrightarrow> nonDealerHands s xs \<Longrightarrow>
   currentDealerId (run s xs) \<notin> Some ` set (playersPlayedThisRound (run s xs))"
proof (induction xs arbitrary: s)
  case Nil then show ?case by (simp add: run_def)
next
  case (Cons x xs)
  from Cons.prems(2) have nd: "case x of RecordHand w b c \<Rightarrow> Some c \<noteq> currentDealerId s | _ \<Rightarrow> True"
    and rest: "nonDealerHands (step s x) xs" by simp_all
  from Cons.IH[OF step_dealer_free[OF Cons.prems(1) nd] rest] show ?case by (simp add: run_Cons)
qed

lemma run_length_players: "length (players (run s xs)) = length (players s)"
proof (induction xs arbitrary: s)
  case Nil then show ?case by (simp add: run_def)
next
  case (Cons x xs)
  have "length (map id' (players (step s x))) = length (map id' (players s))"
    using step_frame[of s x] by metis
  then have "length (players (step s x)) = length (players s)" by simp
  with Cons.IH[of "step s x"] show ?case by (simp add: run_Cons)
qed

subsection \<open>Progress of an orbit\<close>

lemma plain_step:
  assumes p: "plainHands s ((w, b, c) # hs)"
  shows "\<exists>s'' e. step s (RecordHand w b c) = updateRoundProgress s'' c
      \<and> players s'' = players s
      \<and> playersPlayedThisRound s'' = playersPlayedThisRound s
      \<and> gameRound s'' = gameRound s
      \<and> logs s'' = e # logs s
      \<and> plainHands (step s (RecordHand w b c)) hs"
proof -
  from p obtain s' where h: "handleTransaction w b c s = Inr s'"
    and nr: "\<not> mayRotate s (RecordHand w b c)" and rest: "plainHands s' hs"
    by (auto split: sum.splits)
  have st: "step s (RecordHand w b c) = s'" by (simp add: after_def h)
  from plain_hand[OF h nr] rest show ?thesis unfolding st by blast
qed

lemma orbit_progress:
  assumes "plainHands s hs"
      and "distinct (map (snd \<circ> snd) hs)"
      and "set (map (snd \<circ> snd) hs) \<inter> set (playersPlayedThisRound s) = {}"
      and "int (length (playersPlayedThisRound s) + length hs) < int (length (players s)) - 1"
  shows "playersPlayedThisRound (recordHands s hs) = playersPlayedThisRound s @ map (snd \<circ> snd) hs
       \<and> gameRound (recordHands s hs) = gameRound s
       \<and> players (recordHands s hs) = players s
       \<and> length (logs (recordHands s hs)) = length (logs s) + length hs"
  using assms
proof (induction hs arbitrary: s)
  case Nil
  then show ?case by simp
next
  case (Cons h hs)
  obtain w b c where h: "h = (w, b, c)" by (cases h) auto
  from plain_step[of s w b c hs] Cons.prems(1) h obtain s'' e where
    st: "step s (RecordHand w b c) = updateRoundProgress s'' c"
    and pl: "players s'' = players s"
    and pp: "playersPlayedThisRound s'' = playersPlayedThisRound s"
    and gr: "gameRound s'' = gameRound s"
    and lg: "logs s'' = e # logs s"
    and rest: "plainHands (step s (RecordHand w b c)) hs" by blast
  from Cons.prems(3) h have cn: "c \<notin> set (playersPlayedThisRound s)" by auto
  from Cons.prems(4) have lt: "int (length (playersPlayedThisRound s)) + 1 < int (length (players s)) - 1"
    by simp
  have up: "updateRoundProgress s'' c =
      s''\<lparr> gameRound := gameRound s'', playersPlayedThisRound := playersPlayedThisRound s @ [c],
           logs := logs s'' \<rparr>"
    using cn lt by (simp add: updateRoundProgress_def Let_def pp pl)
  let ?t = "step s (RecordHand w b c)"
  have t1: "playersPlayedThisRound ?t = playersPlayedThisRound s @ [c]"
    and t2: "gameRound ?t = gameRound s" and t3: "players ?t = players s"
    and t4: "length (logs ?t) = length (logs s) + 1"
    unfolding st up by (simp_all add: gr pl lg)
  have d: "distinct (map (snd \<circ> snd) hs)" using Cons.prems(2) by (simp add: comp_def)
  have i: "set (map (snd \<circ> snd) hs) \<inter> set (playersPlayedThisRound ?t) = {}"
    using Cons.prems(2,3) h unfolding t1 by auto
  have l: "int (length (playersPlayedThisRound ?t) + length hs) < int (length (players ?t)) - 1"
    using Cons.prems(4) unfolding t1 t3 by simp
  have r: "recordHands s (h # hs) = recordHands ?t hs" unfolding h by (simp del: step.simps)
  have m: "map (snd \<circ> snd) (h # hs) = c # map (snd \<circ> snd) hs" unfolding h by simp
  from Cons.IH[OF rest d i l] show ?case
    unfolding r m t1 t2 t3 t4 by simp
qed

lemma recordHands_append:
  "recordHands s (xs @ ys) = recordHands (recordHands s xs) ys"
  by (induction xs arbitrary: s) auto

lemma plainHands_append:
  "plainHands s (xs @ ys) \<longleftrightarrow> plainHands s xs \<and> plainHands (recordHands s xs) ys"
proof (induction xs arbitrary: s)
  case Nil then show ?case by simp
next
  case (Cons h xs)
  obtain w b c where h: "h = (w, b, c)" by (cases h) auto
  show ?case
  proof (cases "handleTransaction w b c s")
    case (Inl e) then show ?thesis by (simp add: h)
  next
    case (Inr s')
    then have "step s (RecordHand w b c) = s'" by (simp add: after_def)
    with Inr Cons.IH[of s'] show ?thesis by (auto simp: h)
  qed
qed

lemma orbit_last:
  assumes p: "plainHands s [(w, b, c)]"
      and cn: "c \<notin> set (playersPlayedThisRound s)"
      and full: "int (length (playersPlayedThisRound s)) + 1 \<ge> int (length (players s)) - 1"
  shows "playersPlayedThisRound (recordHands s [(w, b, c)]) = []
       \<and> gameRound (recordHands s [(w, b, c)]) = gameRound s + 1
       \<and> (\<exists>e. logs (recordHands s [(w, b, c)]) =
             \<lparr> message = OrbitMsg (gameRound s + 1), amount = None, type' = Info \<rparr> # e # logs s)"
proof -
  from plain_step[OF p] obtain s'' e where
    st: "step s (RecordHand w b c) = updateRoundProgress s'' c"
    and pl: "players s'' = players s"
    and pp: "playersPlayedThisRound s'' = playersPlayedThisRound s"
    and gr: "gameRound s'' = gameRound s"
    and lg: "logs s'' = e # logs s" by blast
  have up: "updateRoundProgress s'' c =
      s''\<lparr> gameRound := gameRound s'' + 1, playersPlayedThisRound := [],
           logs := \<lparr> message = OrbitMsg (gameRound s'' + 1), amount = None, type' = Info \<rparr>
                   # logs s'' \<rparr>"
    using cn full by (simp add: updateRoundProgress_def Let_def pp pl)
  have "recordHands s [(w, b, c)] = updateRoundProgress s'' c" using st by simp
  then show ?thesis unfolding up by (simp add: gr lg)
qed

lemma played_again:
  assumes h: "handleTransaction w b c s = Inr s'"
      and nr: "\<not> mayRotate s (RecordHand w b c)"
      and c: "c \<in> set (playersPlayedThisRound s)"
      and lt: "int (length (playersPlayedThisRound s)) < int (length (players s)) - 1"
  shows "playersPlayedThisRound s' = playersPlayedThisRound s \<and> gameRound s' = gameRound s"
proof -
  from plain_hand[OF h nr] obtain s'' where
    "s' = updateRoundProgress s'' c" "players s'' = players s"
    "playersPlayedThisRound s'' = playersPlayedThisRound s" "gameRound s'' = gameRound s"
    by blast
  with c lt show ?thesis by (simp add: updateRoundProgress_def Let_def)
qed

subsection \<open>A lower bound of the pot\<close>

text \<open>With a non-negative ante the pot never falls below minus one cent. So in every
  state reached from a setup with a non-negative ante, an amount that exceeds the pot by
  more than the tolerance is positive.\<close>

lemma startRound_pot_lower:
  assumes "- (1 / 100) \<le> pot s" and "0 \<le> ante s"
  shows "- (1 / 100) \<le> pot (startRound s)"
proof -
  have "0 \<le> real (length (players s)) * ante s" using assms(2) by simp
  then have "toCurrency (of_int 0 / 100) \<le> toCurrency (real (length (players s)) * ante s)"
    by (intro toCurrency_mono) simp
  then have t: "0 \<le> toCurrency (real (length (players s)) * ante s)"
    unfolding toCurrency_cents by simp
  have "toCurrency (of_int (- 1) / 100)
      \<le> toCurrency (pot s + toCurrency (real (length (players s)) * ante s))"
    using assms(1) t by (intro toCurrency_mono) simp
  then show ?thesis unfolding toCurrency_cents by (simp add: startRound_def Let_def)
qed

lemma handleTransaction_pot_lower:
  assumes h: "handleTransaction w b c s = Inr s'" and lo: "- (1 / 100) \<le> pot s"
  shows "- (1 / 100) \<le> pot s'"
proof (cases "mayRotate s (RecordHand w b c)")
  case True
  then obtain a where b: "b = Some a" and w: "w = player"
    and z: "isApproximatelyZero (toCurrency (pot s - a))"
    by (auto split: option.splits)
  from h b have a: "0 < a"
    by (auto simp: handleTransaction_def split: if_splits)
  from h b a obtain ch where ch: "find (\<lambda>p. id' p = c) (players s) = Some ch"
    by (auto simp: handleTransaction_def split: option.splits if_splits)
  from h handleTransaction_bust[OF a ch z] b w
  have "performDealerSwitch sbancato a (Some (name ch)) s = Inr s'" by simp
  from performDealerSwitch_frame[OF this] show ?thesis by simp
next
  case False
  from h obtain a where b: "b = Some a" and a: "0 < a"
    by (auto simp: handleTransaction_def split: option.splits if_splits)
  from h b a obtain ch where ch: "find (\<lambda>p. id' p = c) (players s) = Some ch"
    by (auto simp: handleTransaction_def split: option.splits if_splits)
  have m1: "toCurrency (of_int (- 1) / 100) = - (1 / 100)" unfolding toCurrency_cents by simp
  show ?thesis
  proof (cases w)
    case player
    with False b have nz: "\<not> isApproximatelyZero (toCurrency (pot s - a))" by simp
    from h b a player have le: "a - pot s \<le> 1 / 100"
      by (auto simp: handleTransaction_def split: if_splits)
    from h handleTransaction_player_plain[OF a le ch nz] b player
    have p: "pot s' = toCurrency (pot s - a)" by (auto simp: updateRoundProgress_frame)
    have "toCurrency (of_int (- 1) / 100) \<le> toCurrency (pot s - a)"
      using le by (intro toCurrency_mono) simp
    then show ?thesis unfolding p m1 .
  next
    case dealer
    from h handleTransaction_dealer[OF a ch] b dealer
    have p: "pot s' = toCurrency (pot s + a)" by (auto simp: updateRoundProgress_frame)
    have "toCurrency (of_int (- 1) / 100) \<le> toCurrency (pot s + a)"
      using lo a by (intro toCurrency_mono) simp
    then show ?thesis unfolding p m1 .
  qed
qed

lemma step_pot_lower:
  assumes lo: "- (1 / 100) \<le> pot s" and an: "0 \<le> ante s"
  shows "- (1 / 100) \<le> pot (step s x)"
proof (cases x)
  case StartRound
  with startRound_pot_lower[OF lo an] show ?thesis by simp
next
  case (RecordHand w b c)
  show ?thesis
  proof (cases "handleTransaction w b c s")
    case (Inl e) with RecordHand lo show ?thesis by (simp add: after_def)
  next
    case (Inr s')
    from handleTransaction_pot_lower[OF Inr lo] RecordHand Inr show ?thesis
      by (simp add: after_def)
  qed
next
  case CloseBank
  show ?thesis
  proof (cases "closeBank s")
    case (Inl e) with CloseBank lo show ?thesis by (simp add: after_def)
  next
    case (Inr s')
    then have "performDealerSwitch collect (pot s) None s = Inr s'"
      by (auto simp: closeBank_def split: option.splits)
    from performDealerSwitch_frame[OF this] CloseBank Inr show ?thesis
      by (simp add: after_def)
  qed
qed

lemma run_pot_lower:
  "- (1 / 100) \<le> pot s \<Longrightarrow> 0 \<le> ante s \<Longrightarrow> - (1 / 100) \<le> pot (run s xs)"
proof (induction xs arbitrary: s)
  case Nil then show ?case by (simp add: run_def)
next
  case (Cons x xs)
  have "ante (step s x) = ante s" using step_frame[of s x] by simp
  with Cons.IH[OF step_pot_lower[OF Cons.prems]] Cons.prems(2) show ?case
    by (simp add: run_Cons)
qed

lemma reachable_pot_lower:
  assumes "initialize uuid names a0 = Inr s0" and "0 \<le> a0"
  shows "- (1 / 100) \<le> pot (run s0 xs)"
proof -
  from initialize_state[OF assms(1)]
  have s0: "s0 = initFirstDealer (initialGameState uuid names a0)" by simp
  have "pot s0 = 0" and "ante s0 = a0" unfolding s0 using initial_fields[of uuid names a0] by simp_all
  with assms(2) show ?thesis by (intro run_pot_lower) simp_all
qed

lemma reachable_excess_positive:
  assumes "initialize uuid names a0 = Inr s0" and "0 \<le> a0"
      and "a - pot (run s0 xs) > 1 / 100"
  shows "0 < a"
  using reachable_pot_lower[OF assms(1,2), of xs] assms(3) by simp

subsection \<open>The sample table, evaluated\<close>

lemma exampleTable_eq:
  "exampleTable =
     \<lparr> players = [\<lparr> id' = ''a'', name = ''A'', isDealer = True, roundsPlayed = 0 \<rparr>,
                  \<lparr> id' = ''b'', name = ''B'', isDealer = False, roundsPlayed = 0 \<rparr>,
                  \<lparr> id' = ''c'', name = ''C'', isDealer = False, roundsPlayed = 0 \<rparr>],
       pot = 0, ante = 1 / 5, currentDealerId = Some ''a'', roundActive = False, logs = [],
       gameRound = 1, playersPlayedThisRound = [] \<rparr>"
  by (simp add: exampleTable_def initFirstDealer_def initialGameState_def exampleUuid_def)

lemma startRound_exampleTable:
  "startRound exampleTable =
     \<lparr> players = [\<lparr> id' = ''a'', name = ''A'', isDealer = True, roundsPlayed = 0 \<rparr>,
                  \<lparr> id' = ''b'', name = ''B'', isDealer = False, roundsPlayed = 0 \<rparr>,
                  \<lparr> id' = ''c'', name = ''C'', isDealer = False, roundsPlayed = 0 \<rparr>],
       pot = 3 / 5, ante = 1 / 5, currentDealerId = Some ''a'', roundActive = True,
       logs = [\<lparr> message = AnteMsg (1 / 5), amount = Some (3 / 5), type' = Ante \<rparr>],
       gameRound = 1, playersPlayedThisRound = [] \<rparr>"
  by (simp add: exampleTable_eq startRound_def toCurrency_def Let_def)

lemma exampleRound_eq:
  "exampleRound =
     \<lparr> players = [\<lparr> id' = ''a'', name = ''A'', isDealer = True, roundsPlayed = 0 \<rparr>,
                  \<lparr> id' = ''b'', name = ''B'', isDealer = False, roundsPlayed = 0 \<rparr>,
                  \<lparr> id' = ''c'', name = ''C'', isDealer = False, roundsPlayed = 0 \<rparr>],
       pot = 4 / 5, ante = 1 / 5, currentDealerId = Some ''a'', roundActive = True,
       logs = [\<lparr> message = DealerWinsMsg ''B'', amount = Some (1 / 5), type' = Win \<rparr>,
               \<lparr> message = AnteMsg (1 / 5), amount = Some (3 / 5), type' = Ante \<rparr>],
       gameRound = 1, playersPlayedThisRound = [''b''] \<rparr>"
  by (simp add: exampleRound_def run_def startRound_exampleTable handleTransaction_def
      updateRoundProgress_def after_def toCurrency_def)

subsection \<open>A win followed by a loss, in exact arithmetic\<close>

text \<open>With amounts taken as exact reals, an accepted player win that does not break the bank
  followed by a dealer win of the same amount leaves the pot at most one cent from where it
  was: each of the two roundings moves it by at most half a cent. The distance of one cent is
  attained: a player win of 0.105 followed by a dealer win of 0.105 moves a pot of 0.60 to
  0.61. Both facts are about exact reals only; the program stores doubles.\<close>

lemma exact_win_then_loss_within_cent:
  assumes a: "0 < a"
      and le: "a - pot st \<le> 1 / 100"
      and ch: "find (\<lambda>p. id' p = c) (players st) = Some ch"
      and nz: "\<not> isApproximatelyZero (toCurrency (pot st - a))"
      and ch2: "find (\<lambda>p. id' p = c2) (players st) = Some ch2"
  shows "\<exists>s1 s2. handleTransaction player (Some a) c st = Inr s1
      \<and> handleTransaction dealer (Some a) c2 s1 = Inr s2
      \<and> \<bar>pot s2 - pot st\<bar> \<le> 1 / 100"
proof -
  define s1 where "s1 = updateRoundProgress
            (st\<lparr> pot := toCurrency (pot st - a),
                 logs := \<lparr> message = PlayerWinsMsg (Some (name ch)), amount = Some (- a),
                           type' = Loss \<rparr> # logs st \<rparr>) (id' ch)"
  have h1: "handleTransaction player (Some a) c st = Inr s1"
    unfolding s1_def by (rule handleTransaction_player_plain[OF a le ch nz])
  have p1: "pot s1 = toCurrency (pot st - a)" and pl1: "players s1 = players st"
    by (simp_all add: s1_def updateRoundProgress_frame)
  define s2 where "s2 = updateRoundProgress
            (s1\<lparr> pot := toCurrency (pot s1 + a),
                 logs := \<lparr> message = DealerWinsMsg (name ch2), amount = Some a,
                           type' = Win \<rparr> # logs s1 \<rparr>) (id' ch2)"
  have h2: "handleTransaction dealer (Some a) c2 s1 = Inr s2"
    unfolding s2_def using ch2 pl1 by (intro handleTransaction_dealer[OF a]) simp
  have p2: "pot s2 = toCurrency (toCurrency (pot st - a) + a)"
    by (simp add: s2_def updateRoundProgress_frame p1)
  have "\<bar>pot s2 - pot st\<bar> \<le> 1 / 100"
    using toCurrency_upper[of "pot st - a"] toCurrency_lower[of "pot st - a"]
          toCurrency_upper[of "toCurrency (pot st - a) + a"]
          toCurrency_lower[of "toCurrency (pot st - a) + a"]
    unfolding p2 by linarith
  with h1 h2 show ?thesis by blast
qed

lemma conservation_bound_attained:
  "pot (recordHands (startRound exampleTable)
          [(player, Some (105 / 1000), ''b''), (dealer, Some (105 / 1000), ''b'')])
     = pot (startRound exampleTable) + 1 / 100"
  by (simp add: startRound_exampleTable handleTransaction_def updateRoundProgress_def after_def
      toCurrency_def isApproximatelyZero_def)

section \<open>Properties of the ledger\<close>

subsection \<open>C1: the pot is never negative\<close>

text \<open>
  Claim C1: in every reachable state the pot is at least zero; in particular a hand won by
  the challenger that passes the tolerance check \<open>amount - pot \<le> 0.01\<close> never leaves a
  negative pot.

  The code does not achieve this. The safety check accepts an amount up to one cent above
  the pot, the remainder is rounded to cents, and the bank counts as broken only when the
  rounded remainder is strictly within one cent of zero. An amount more than half a cent and
  at most one cent above the pot rounds to a remainder of \<open>-0.01\<close>, which is stored. On the
  sample table: after the antes the pot is 0.60; B wins 0.608; the check passes
  (\<open>0.608 - 0.60 \<le> 0.01\<close>) and the stored pot is \<open>-0.01\<close>. With whole cents: two
  players and an ante of 0.05 give a pot of 0.10; B wins 0.03, leaving 0.07; B wins 0.08,
  one cent more than the pot, and the stored pot is \<open>-0.01\<close>.
\<close>

theorem overpay_leaves_negative_pot:
  "initialize exampleUuid [''A'', ''B'', ''C''] (1 / 5) = Inr exampleTable
   \<and> pot (startRound exampleTable) = 3 / 5
   \<and> \<not> (608 / 1000 - pot (startRound exampleTable) > 1 / 100)
   \<and> handleTransaction player (Some (608 / 1000)) ''b'' (startRound exampleTable)
       = Inr ((startRound exampleTable)
               \<lparr> pot := - (1 / 100),
                  logs := \<lparr> message = PlayerWinsMsg (Some ''B''), amount = Some (- (608 / 1000)),
                            type' = Loss \<rparr> # logs (startRound exampleTable),
                  playersPlayedThisRound := [''b''] \<rparr>)
   \<and> pot (run exampleTable [StartRound, RecordHand player (Some (608 / 1000)) ''b'']) < 0
   \<and> pot (run (initFirstDealer (initialGameState exampleUuid [''A'', ''B''] (5 / 100)))
             [StartRound, RecordHand player (Some (3 / 100)) ''b'']) = 7 / 100
   \<and> pot (run (initFirstDealer (initialGameState exampleUuid [''A'', ''B''] (5 / 100)))
             [StartRound, RecordHand player (Some (3 / 100)) ''b'',
              RecordHand player (Some (8 / 100)) ''b'']) = - (1 / 100)"
proof -
  have sample: "initialize exampleUuid [''A'', ''B'', ''C''] (1 / 5) = Inr exampleTable
   \<and> pot (startRound exampleTable) = 3 / 5
   \<and> \<not> (608 / 1000 - pot (startRound exampleTable) > 1 / 100)
   \<and> handleTransaction player (Some (608 / 1000)) ''b'' (startRound exampleTable)
       = Inr ((startRound exampleTable)
               \<lparr> pot := - (1 / 100),
                  logs := \<lparr> message = PlayerWinsMsg (Some ''B''), amount = Some (- (608 / 1000)),
                            type' = Loss \<rparr> # logs (startRound exampleTable),
                  playersPlayedThisRound := [''b''] \<rparr>)
   \<and> pot (run exampleTable [StartRound, RecordHand player (Some (608 / 1000)) ''b'']) < 0"
    by (simp add: initialize_def handleStart_def exampleTable_def[symmetric] run_def
        startRound_exampleTable handleTransaction_def updateRoundProgress_def after_def
        toCurrency_def isApproximatelyZero_def)
  have cents: "pot (run (initFirstDealer (initialGameState exampleUuid [''A'', ''B''] (5 / 100)))
             [StartRound, RecordHand player (Some (3 / 100)) ''b'']) = 7 / 100
   \<and> pot (run (initFirstDealer (initialGameState exampleUuid [''A'', ''B''] (5 / 100)))
             [StartRound, RecordHand player (Some (3 / 100)) ''b'',
              RecordHand player (Some (8 / 100)) ''b'']) = - (1 / 100)"
    by (simp add: run_def initFirstDealer_def initialGameState_def exampleUuid_def
        startRound_def Let_def handleTransaction_def updateRoundProgress_def after_def
        toCurrency_def isApproximatelyZero_def)
  from sample cents show ?thesis by blast
qed

subsection \<open>C2: breaking the bank rotates the dealer\<close>




subsection \<open>C3: an amount above the pot is rejected\<close>

text \<open>
  Claim C3: a hand won by the challenger whose amount exceeds the pot by more than 0.01
  fails with \<open>InsufficientPot\<close> and leaves the state as it was: pot, dealer, round flag,
  orbit counter, list of players who have played and log.

  The amount is a positive number, as the amount check that runs first requires; lemma
  \<open>reachable_excess_positive\<close> shows that this holds by itself in every state reached
  from a setup with a non-negative ante.
\<close>

theorem insufficient_pot_rejected:
  assumes "a - pot st > 1 / 100" and "0 < a"
  shows "handleTransaction player (Some a) c st = Inl InsufficientPot
         \<and> step st (RecordHand player (Some a) c) = st"
  using assms by (simp add: handleTransaction_def after_def)

theorem insufficient_pot_rejected_witness:
  "1 - pot exampleRound > 1 / 100 \<and> (0::real) < 1
   \<and> handleTransaction player (Some 1) ''b'' exampleRound = Inl InsufficientPot
   \<and> step exampleRound (RecordHand player (Some 1) ''b'') = exampleRound"
proof -
  have h1: "1 - pot exampleRound > 1 / 100" by (simp add: exampleRound_eq)
  have h2: "(0::real) < 1" by simp
  from insufficient_pot_rejected[OF h1 h2, of "''b''"] h1 h2 show ?thesis by blast
qed

subsection \<open>C4: completing an orbit\<close>

text \<open>
  Claim C4: in a game of N players, starting from a state in which nobody has played yet,
  after each of the N - 1 challengers has had exactly one accepted hand that does not break
  the bank, in any order, the orbit counter has grown by exactly one, the list of players who
  have played is empty again, and an info entry announcing the new orbit number is the newest
  log entry; a challenger who plays again before the orbit is complete is not added twice.

  The hands \<open>hs\<close> name every player id except the dealer's exactly once. Before the last
  hand the counter is unchanged and the list holds the challengers so far, in order.
\<close>

theorem orbit_completion:
  assumes d: "distinct (map id' (players st))"
      and cd: "currentDealerId st = Some dl"
      and dm: "dl \<in> id' ` set (players st)"
      and n2: "2 \<le> length (players st)"
      and e: "playersPlayedThisRound st = []"
      and dh: "distinct (map (snd \<circ> snd) hs)"
      and sh: "set (map (snd \<circ> snd) hs) = id' ` set (players st) - {dl}"
      and ph: "plainHands st hs"
  shows "gameRound (recordHands st hs) = gameRound st + 1
       \<and> playersPlayedThisRound (recordHands st hs) = []
       \<and> (\<exists>rest. logs (recordHands st hs) =
             \<lparr> message = OrbitMsg (gameRound st + 1), amount = None, type' = Info \<rparr> # rest)
       \<and> length (logs (recordHands st hs)) = length (logs st) + length hs + 1
       \<and> (\<forall>k < length hs.
             gameRound (recordHands st (take k hs)) = gameRound st
             \<and> playersPlayedThisRound (recordHands st (take k hs)) = map (snd \<circ> snd) (take k hs))
       \<and> (\<forall>s w b c s'. handleTransaction w b c s = Inr s' \<and> \<not> mayRotate s (RecordHand w b c)
             \<and> c \<in> set (playersPlayedThisRound s)
             \<and> int (length (playersPlayedThisRound s)) < int (length (players s)) - 1
             \<longrightarrow> playersPlayedThisRound s' = playersPlayedThisRound s)"
proof -
  have "length hs = card (set (map (snd \<circ> snd) hs))"
    using distinct_card[OF dh] by simp
  also have "\<dots> = card (set (map id' (players st)) - {dl})" using sh by simp
  also have "\<dots> = card (set (map id' (players st))) - 1" using dm by simp
  also have "\<dots> = length (players st) - 1" using distinct_card[OF d] by simp
  finally have len: "length hs = length (players st) - 1" .
  with n2 have ne: "hs \<noteq> []" by auto
  then obtain hs' h where hs: "hs = hs' @ [h]" by (metis rev_exhaust)
  obtain w b c where h: "h = (w, b, c)" by (cases h) auto
  have len': "int (length hs') = int (length (players st)) - 2" using len hs n2 by simp
  have prefix: "plainHands st (take k hs) \<and> distinct (map (snd \<circ> snd) (take k hs))
       \<and> set (map (snd \<circ> snd) (take k hs)) \<inter> set (playersPlayedThisRound st) = {}
       \<and> int (length (playersPlayedThisRound st) + length (take k hs)) < int (length (players st)) - 1"
    if k: "k < length hs" for k
  proof -
    have "plainHands st (take k hs @ drop k hs)" using ph by simp
    then have 1: "plainHands st (take k hs)" unfolding plainHands_append by simp
    have 2: "distinct (map (snd \<circ> snd) (take k hs))"
      using dh by (simp add: take_map[symmetric] del: take_map)
    have "length (take k hs) = k" using k by simp
    with k len n2 e have 3: "int (length (playersPlayedThisRound st) + length (take k hs))
        < int (length (players st)) - 1" by simp
    from 1 2 3 e show ?thesis by simp
  qed
  have mid: "gameRound (recordHands st (take k hs)) = gameRound st
        \<and> playersPlayedThisRound (recordHands st (take k hs)) = map (snd \<circ> snd) (take k hs)
        \<and> players (recordHands st (take k hs)) = players st
        \<and> length (logs (recordHands st (take k hs))) = length (logs st) + k"
    if k: "k < length hs" for k
    using orbit_progress[of st "take k hs"] prefix[OF k] e k by simp
  have tk: "take (length hs') hs = hs'" by (simp add: hs)
  have kl: "length hs' < length hs" by (simp add: hs)
  let ?m = "recordHands st hs'"
  from mid[OF kl] have m1: "gameRound ?m = gameRound st"
    and m2: "playersPlayedThisRound ?m = map (snd \<circ> snd) hs'"
    and m3: "players ?m = players st"
    and m4: "length (logs ?m) = length (logs st) + length hs'" unfolding tk by simp_all
  have pl: "plainHands ?m [(w, b, c)]" using ph unfolding hs h plainHands_append by simp
  have cn: "c \<notin> set (playersPlayedThisRound ?m)" using dh unfolding m2 hs h by auto
  have full: "int (length (playersPlayedThisRound ?m)) + 1 \<ge> int (length (players ?m)) - 1"
    unfolding m2 m3 using len' by simp
  have fin: "recordHands st hs = recordHands ?m [(w, b, c)]"
    unfolding hs h by (rule recordHands_append)
  from orbit_last[OF pl cn full] obtain e' where
    f1: "playersPlayedThisRound (recordHands st hs) = []"
    and f2: "gameRound (recordHands st hs) = gameRound st + 1"
    and f3: "logs (recordHands st hs) =
       \<lparr> message = OrbitMsg (gameRound st + 1), amount = None, type' = Info \<rparr> # e' # logs ?m"
    unfolding fin m1 by blast
  have f4: "length (logs (recordHands st hs)) = length (logs st) + length hs + 1"
    unfolding f3 by (simp add: m4 hs)
  have again: "\<forall>s w b c s'. handleTransaction w b c s = Inr s' \<and> \<not> mayRotate s (RecordHand w b c)
             \<and> c \<in> set (playersPlayedThisRound s)
             \<and> int (length (playersPlayedThisRound s)) < int (length (players s)) - 1
             \<longrightarrow> playersPlayedThisRound s' = playersPlayedThisRound s"
    using played_again by blast
  from f1 f2 f3 f4 mid again show ?thesis by blast
qed

theorem orbit_completion_witness:
  "distinct (map id' (players (startRound exampleTable)))
   \<and> currentDealerId (startRound exampleTable) = Some ''a''
   \<and> ''a'' \<in> id' ` set (players (startRound exampleTable))
   \<and> 2 \<le> length (players (startRound exampleTable))
   \<and> playersPlayedThisRound (startRound exampleTable) = []
   \<and> distinct (map (snd \<circ> snd) [(dealer, Some (1 / 5 :: real), ''c''), (player, Some (1 / 10), ''b'')])
   \<and> set (map (snd \<circ> snd) [(dealer, Some (1 / 5 :: real), ''c''), (player, Some (1 / 10), ''b'')])
       = id' ` set (players (startRound exampleTable)) - {''a''}
   \<and> plainHands (startRound exampleTable)
       [(dealer, Some (1 / 5 :: real), ''c''), (player, Some (1 / 10), ''b'')]
   \<and> gameRound (recordHands (startRound exampleTable)
       [(dealer, Some (1 / 5 :: real), ''c''), (player, Some (1 / 10), ''b'')]) = 2
   \<and> playersPlayedThisRound (recordHands (startRound exampleTable)
       [(dealer, Some (1 / 5 :: real), ''c''), (player, Some (1 / 10), ''b'')]) = []"
proof -
  let ?s = "startRound exampleTable"
  let ?hs = "[(dealer, Some (1 / 5), ''c''), (player, Some (1 / 10 :: real), ''b'')]"
  have h1: "distinct (map id' (players ?s))" by (simp add: startRound_exampleTable)
  have h2: "currentDealerId ?s = Some ''a''" by (simp add: startRound_exampleTable)
  have h3: "''a'' \<in> id' ` set (players ?s)" by (simp add: startRound_exampleTable)
  have h4: "2 \<le> length (players ?s)" by (simp add: startRound_exampleTable)
  have h5: "playersPlayedThisRound ?s = []" by (simp add: startRound_exampleTable)
  have h6: "distinct (map (snd \<circ> snd) ?hs)" by simp
  have h7: "set (map (snd \<circ> snd) ?hs) = id' ` set (players ?s) - {''a''}"
    by (auto simp: startRound_exampleTable)
  have h8: "plainHands ?s ?hs"
    by (simp add: startRound_exampleTable handleTransaction_def updateRoundProgress_def
        toCurrency_def isApproximatelyZero_def)
  have g: "gameRound ?s = 1" by (simp add: startRound_exampleTable)
  note r = orbit_completion[OF h1 h2 h3 h4 h5 h6 h7 h8]
  from r have "gameRound (recordHands ?s ?hs) = gameRound ?s + 1" by (rule conjunct1)
  with g have r1: "gameRound (recordHands ?s ?hs) = 2" by simp
  from r have r2: "playersPlayedThisRound (recordHands ?s ?hs) = []"
    by (rule conjunct2[THEN conjunct1])
  show ?thesis by (intro conjI h1 h2 h3 h4 h5 h6 h7 h8 r1 r2)
qed

subsection \<open>C5: validation at setup\<close>

text \<open>
  Claim C5: initialisation fails with \<open>InvalidSetup\<close> whenever fewer than 2 names are
  given or the ante is at most zero, and produces no game state in either case.

  The claim fails for the ante: with two names and an ante of zero the game starts.
\<close>

theorem setup_accepts_zero_ante:
  "(0::real) \<le> 0
   \<and> initialize exampleUuid [''A'', ''B''] 0
       = Inr \<lparr> players = [\<lparr> id' = ''a'', name = ''A'', isDealer = True, roundsPlayed = 0 \<rparr>,
                          \<lparr> id' = ''b'', name = ''B'', isDealer = False, roundsPlayed = 0 \<rparr>],
               pot = 0, ante = 0, currentDealerId = Some ''a'', roundActive = False, logs = [],
               gameRound = 1, playersPlayedThisRound = [] \<rparr>"
  by (simp add: initialize_def handleStart_def initFirstDealer_def initialGameState_def
      exampleUuid_def)

text \<open>
  Claim C5, amended: initialisation produces no game state exactly when fewer than 2 names
  are given (the start handler then does nothing); with 2 or more names it produces the
  initial state with the ante it was handed, whatever its sign: the ante is validated
  neither by the start handler nor by the game component.
\<close>

theorem initialize_checks_name_count:
  "(length names < 2 \<longrightarrow> initialize uuid names a0 = Inl InvalidSetup)
   \<and> (2 \<le> length names \<longrightarrow>
        (\<exists>s. initialize uuid names a0 = Inr s \<and> ante s = a0 \<and> map name (players s) = names
           \<and> length (players s) = length names
           \<and> currentDealerId s = Some (uuid 0) \<and> pot s = 0 \<and> \<not> roundActive s))"
proof -
  have "map name (map (\<lambda>(i, n). \<lparr> id' = uuid i, name = n, isDealer = (i = 0), roundsPlayed = 0 \<rparr>)
                     (enumerate k names)) = names" for k
    by (induction names arbitrary: k) simp_all
  then have m: "map name (map (\<lambda>(i, n). \<lparr> id' = uuid i, name = n, isDealer = (i = 0), roundsPlayed = 0 \<rparr>)
                     (enumerate 0 names)) = names" .
  have h: "2 \<le> length names \<Longrightarrow> id' (hd (players (initialGameState uuid names a0))) = uuid 0"
    by (cases names) (simp_all add: initialGameState_def)
  show ?thesis
    using m h by (auto simp: initialize_def handleStart_def initFirstDealer_def initialGameState_def)
qed

theorem initialize_checks_name_count_witness:
  "length [''A''] < 2
   \<and> initialize exampleUuid [''A''] (1 / 5) = Inl InvalidSetup
   \<and> 2 \<le> length [''A'', ''B'', ''C'']
   \<and> initialize exampleUuid [''A'', ''B'', ''C''] (1 / 5) = Inr exampleTable"
proof -
  have h1: "length [''A''] < 2" by simp
  have h2: "2 \<le> length [''A'', ''B'', ''C'']" by simp
  from initialize_checks_name_count[of "[''A'']" exampleUuid "1 / 5"] h1
  have 1: "initialize exampleUuid [''A''] (1 / 5) = Inl InvalidSetup" by blast
  from initialize_checks_name_count[of "[''A'', ''B'', ''C'']" exampleUuid "1 / 5"] h2
  obtain s where "initialize exampleUuid [''A'', ''B'', ''C''] (1 / 5) = Inr s" by blast
  then have 2: "initialize exampleUuid [''A'', ''B'', ''C''] (1 / 5) = Inr exampleTable"
    by (simp add: initialize_def handleStart_def exampleTable_def)
  from h1 h2 1 2 show ?thesis by blast
qed

subsection \<open>C6: recording a hand without an active round\<close>




subsection \<open>C7: who is in the list of players who have played\<close>

text \<open>
  Claim C7: in every reachable state the list of players who have played holds only ids of
  players other than the current dealer, and its size never exceeds the number of players
  minus one; in particular no sequence of operations, including a hand whose challenger id is
  the dealer's, can place the dealer's id in the list.

  The claim fails for such a hand: \<^verbatim>\<open>handleTransaction\<close> looks the challenger up among all
  players and accepts the dealer. On the sample table, after the antes, a hand recorded with
  the dealer's id puts that id in the list.
\<close>

theorem dealer_recorded_as_challenger:
  "initialize exampleUuid [''A'', ''B'', ''C''] (1 / 5) = Inr exampleTable
   \<and> currentDealerId (run exampleTable [StartRound, RecordHand dealer (Some (1 / 5)) ''a''])
       = Some ''a''
   \<and> playersPlayedThisRound (run exampleTable [StartRound, RecordHand dealer (Some (1 / 5)) ''a''])
       = [''a'']"
  by (simp add: initialize_def handleStart_def exampleTable_def[symmetric] run_def
      startRound_exampleTable handleTransaction_def updateRoundProgress_def after_def
      toCurrency_def)

text \<open>
  Claim C7, amended: in every reachable state the list of players who have played is free of
  duplicates, holds only ids of known players, and its size never exceeds the number of
  players minus one; it holds no dealer id provided no recorded hand names the dealer of the
  moment as challenger (the challenger selection offers non-dealers only).
\<close>

theorem played_list_invariant:
  assumes init: "initialize uuid names a0 = Inr s0"
  shows "distinct (playersPlayedThisRound (run s0 xs))
       \<and> set (playersPlayedThisRound (run s0 xs)) \<subseteq> id' ` set (players (run s0 xs))
       \<and> int (length (playersPlayedThisRound (run s0 xs))) \<le> int (length (players (run s0 xs))) - 1
       \<and> (nonDealerHands s0 xs \<longrightarrow>
            currentDealerId (run s0 xs) \<notin> Some ` set (playersPlayedThisRound (run s0 xs)))"
proof -
  from initialize_state[OF init] have n: "2 \<le> length names"
    and s0: "s0 = initFirstDealer (initialGameState uuid names a0)" by simp_all
  have e: "playersPlayedThisRound s0 = []" and l: "length (players s0) = length names"
    unfolding s0 using initial_fields[of uuid names a0] by simp_all
  have "playedInv s0" by (simp add: playedInv_def e)
  then have inv: "playedInv (run s0 xs)" by (rule run_playedInv)
  have len: "length (players (run s0 xs)) = length names"
    using run_length_players[of s0 xs] l by simp
  have free: "nonDealerHands s0 xs \<longrightarrow>
            currentDealerId (run s0 xs) \<notin> Some ` set (playersPlayedThisRound (run s0 xs))"
    using run_dealer_free[of s0 xs] e by simp
  from inv have "int (length (playersPlayedThisRound (run s0 xs))) \<le> int (length (players (run s0 xs))) - 1"
    unfolding playedInv_def len using n by auto
  with inv free show ?thesis unfolding playedInv_def by blast
qed

theorem played_list_invariant_witness:
  "initialize exampleUuid [''A'', ''B'', ''C''] (1 / 5) = Inr exampleTable
   \<and> nonDealerHands exampleTable [StartRound, RecordHand dealer (Some (1 / 5)) ''b'']
   \<and> distinct (playersPlayedThisRound exampleRound)
   \<and> int (length (playersPlayedThisRound exampleRound)) \<le> int (length (players exampleRound)) - 1
   \<and> currentDealerId exampleRound \<notin> Some ` set (playersPlayedThisRound exampleRound)"
proof -
  have h1: "initialize exampleUuid [''A'', ''B'', ''C''] (1 / 5) = Inr exampleTable"
    by (simp add: initialize_def handleStart_def exampleTable_def)
  have h2: "nonDealerHands exampleTable [StartRound, RecordHand dealer (Some (1 / 5)) ''b'']"
    by (simp add: startRound_exampleTable)
  from played_list_invariant[OF h1, of "[StartRound, RecordHand dealer (Some (1 / 5)) ''b'']"] h1 h2
  show ?thesis unfolding exampleRound_def[symmetric] by blast
qed

subsection \<open>C8: a win followed by a loss of the same amount\<close>

text \<open>
  Claim C8: a hand won by the challenger for an amount \<open>a\<close> that does not break the bank,
  followed immediately by a hand won by the dealer for the same amount, returns the pot to
  its prior value within 0.01.

  This is a bound on the numbers the program computes, which are binary floating-point
  doubles. With exact reals the distance is at most one cent and that cent is attained
  (lemmas \<open>exact_win_then_loss_within_cent\<close> and \<open>conservation_bound_attained\<close>), so
  whether the bound holds for the program is decided by the rounding of double arithmetic,
  which is outside this model. No theorem is stated for it.
\<close>

subsection \<open>C9: closing the bank\<close>

text \<open>
  Claim C9: in every state with a current dealer, also when no round is active and the pot is
  zero, closing the bank adds a collect entry whose amount is the pot at the moment of the
  call and rotates the dealer: the next player in turn order (wrapping around) becomes the
  current dealer and is the only player flagged as dealer, the pot is 0, no round is
  active, the orbit counter is 1 and the list of players who have played is empty.

  The player ids are distinct and the current dealer is the player at index \<open>i\<close>.
\<close>

theorem closeBank_collects_and_rotates:
  assumes d: "distinct (map id' (players st))"
      and i: "i < length (players st)"
      and cd: "currentDealerId st = Some (id' (players st ! i))"
  shows "\<exists>st'. closeBank st = Inr st'
      \<and> logs st' = \<lparr> message = CollectMsg (name (players st ! i)),
                      amount = Some (pot st), type' = Collect \<rparr> # logs st
      \<and> currentDealerId st' = Some (id' (players st ! ((i + 1) mod length (players st))))
      \<and> length (players st') = length (players st)
      \<and> (\<forall>j < length (players st).
            players st' ! j = (players st ! j)\<lparr> isDealer := (j = (i + 1) mod length (players st)) \<rparr>)
      \<and> pot st' = 0 \<and> \<not> roundActive st' \<and> gameRound st' = 1
      \<and> playersPlayedThisRound st' = []"
proof -
  have n0: "0 < length (players st)" using i by auto
  then have k: "(i + 1) mod length (players st) < length (players st)" by simp
  have "getCurrentDealer st = Some (players st ! i)"
    unfolding getCurrentDealer_def using find_nth[OF d i] cd by simp
  then have cb: "closeBank st = performDealerSwitch collect (pot st) None st"
    by (simp add: closeBank_def)
  show ?thesis
    unfolding cb performDealerSwitch_at[OF d i cd]
    using id_nth_eq[OF d k] by simp
qed

theorem closeBank_collects_and_rotates_witness:
  "distinct (map id' (players exampleTable))
   \<and> 0 < length (players exampleTable)
   \<and> currentDealerId exampleTable = Some (id' (players exampleTable ! 0))
   \<and> \<not> roundActive exampleTable \<and> pot exampleTable = 0
   \<and> currentDealerId (step exampleTable CloseBank) = Some ''b''
   \<and> \<not> isDealer (players (step exampleTable CloseBank) ! 0)
   \<and> isDealer (players (step exampleTable CloseBank) ! 1)
   \<and> logs (step exampleTable CloseBank)
       = [\<lparr> message = CollectMsg ''A'', amount = Some 0, type' = Collect \<rparr>]"
proof -
  have h1: "distinct (map id' (players exampleTable))" by (simp add: exampleTable_eq)
  have h2: "0 < length (players exampleTable)" by (simp add: exampleTable_eq)
  have h3: "currentDealerId exampleTable = Some (id' (players exampleTable ! 0))"
    by (simp add: exampleTable_eq)
  have h4: "\<not> roundActive exampleTable \<and> pot exampleTable = 0" by (simp add: exampleTable_eq)
  from closeBank_collects_and_rotates[OF h1 h2 h3] obtain st' where
    r: "closeBank exampleTable = Inr st'"
    and l: "logs st' = \<lparr> message = CollectMsg (name (players exampleTable ! 0)),
                      amount = Some (pot exampleTable), type' = Collect \<rparr> # logs exampleTable"
    and c: "currentDealerId st'
        = Some (id' (players exampleTable ! ((0 + 1) mod length (players exampleTable))))"
    and n: "length (players st') = length (players exampleTable)"
    and d: "\<forall>j < length (players exampleTable). players st' ! j
        = (players exampleTable ! j)
            \<lparr> isDealer := (j = (0 + 1) mod length (players exampleTable)) \<rparr>"
    by blast
  have s: "step exampleTable CloseBank = st'" by (simp add: after_def r)
  have c': "currentDealerId st' = Some ''b''" unfolding c by (simp add: exampleTable_eq)
  have l': "logs st' = [\<lparr> message = CollectMsg ''A'', amount = Some 0, type' = Collect \<rparr>]"
    unfolding l by (simp add: exampleTable_eq)
  from d have d': "\<not> isDealer (players st' ! 0) \<and> isDealer (players st' ! 1)"
    by (simp add: exampleTable_eq)
  from h1 h2 h3 h4 c' d' l' show ?thesis unfolding s by blast
qed

subsection \<open>C10: what the operations leave alone\<close>

text \<open>
  Claim C10: starting a round, recording a hand (either outcome) and closing the bank leave
  the ante, the length and order of the player list and every player's id, name and
  rounds-played counter unchanged; the dealer flag is the only player field that changes, and
  only on the dealer-switch path: an operation that does not take it leaves the player list
  as it was.
\<close>

theorem operations_keep_roster_and_ante:
  "ante (step s x) = ante s
   \<and> length (players (step s x)) = length (players s)
   \<and> map id' (players (step s x)) = map id' (players s)
   \<and> map name (players (step s x)) = map name (players s)
   \<and> map roundsPlayed (players (step s x)) = map roundsPlayed (players s)
   \<and> (\<not> mayRotate s x \<longrightarrow> players (step s x) = players s)"
proof -
  have "length (map id' (players (step s x))) = length (map id' (players s))"
    using step_frame[of s x] by metis
  then have "length (players (step s x)) = length (players s)" by simp
  then show ?thesis using step_frame[of s x] step_players_same[of s x] by blast
qed

theorem operations_keep_roster_and_ante_witness:
  "\<not> mayRotate exampleTable StartRound
   \<and> players (step exampleTable StartRound) = players exampleTable
   \<and> ante (step exampleRound CloseBank) = ante exampleRound
   \<and> map name (players (step exampleRound CloseBank)) = map name (players exampleRound)"
proof -
  have h: "\<not> mayRotate exampleTable StartRound" by simp
  from operations_keep_roster_and_ante[of exampleTable StartRound] h
  have 1: "players (step exampleTable StartRound) = players exampleTable" by blast
  from operations_keep_roster_and_ante[of exampleRound CloseBank]
  have 2: "ante (step exampleRound CloseBank) = ante exampleRound
     \<and> map name (players (step exampleRound CloseBank)) = map name (players exampleRound)"
    by blast
  from h 1 2 show ?thesis by blast
qed

end
